theory Spec2Isabelle
  imports Main
begin

section \<open>Quasigroup: Cayley table with bounds-checked multiplication\<close>

text \<open>
  The C++ sources signal failure in two ways. \<open>applyOperation\<close> throws
  \<open>std::out_of_range\<close>; an unchecked \<open>operator[]\<close> beyond the end of a vector and a
  random draw from an empty set have no defined behaviour. Both are values of the model.
\<close>

datatype error = OutOfRange | Undefined

text \<open>
  \<open>class Quasigroup\<close> of \<open>main.cpp\<close>: the table and its order, the order being the
  number of rows of the table handed to the constructor. Elements are C++ \<open>int\<close>s; no
  arithmetic is done on them here, so \<open>int\<close> models them.
\<close>

record quasigroup =
  cayleyTable :: "int list list"
  order :: int

definition Quasigroup :: "int list list \<Rightarrow> quasigroup" where
  "Quasigroup t = \<lparr>cayleyTable = t, order = int (length t)\<rparr>"

text \<open>An unchecked read \<open>table[i][j]\<close> of a vector of vectors.\<close>

definition readCell :: "int list list \<Rightarrow> nat \<Rightarrow> nat \<Rightarrow> error + int" where
  "readCell t i j =
     (if i < length t \<and> j < length (t ! i) then Inr (t ! i ! j) else Inl Undefined)"

definition applyOperation :: "quasigroup \<Rightarrow> int \<Rightarrow> int \<Rightarrow> error + int" where
  "applyOperation q firstElement secondElement =
     (if 0 \<le> firstElement \<and> firstElement < order q \<and>
         0 \<le> secondElement \<and> secondElement < order q
      then readCell (cayleyTable q) (nat firstElement) (nat secondElement)
      else Inl OutOfRange)"

text \<open>
  \<open>Quasigroup::multiply\<close> of \<open>quasigroup.cpp\<close>; its fields \<open>table\<close> and \<open>size\<close> are
  the fields \<open>cayleyTable\<close> and \<open>order\<close> of the record.
\<close>

definition multiply :: "quasigroup \<Rightarrow> int \<Rightarrow> int \<Rightarrow> error + int" where
  "multiply q x y =
     (if 0 \<le> x \<and> x < order q \<and> 0 \<le> y \<and> y < order q
      then readCell (cayleyTable q) (nat x) (nat y)
      else Inl OutOfRange)"

text \<open>A table is square when each of its rows is as long as the table has rows.\<close>

definition squareTable :: "int list list \<Rightarrow> bool" where
  "squareTable t = (\<forall>r \<in> set t. length r = length t)"

section \<open>The Latin-square validator\<close>

text \<open>
  \<open>isLatinSquare\<close>: for each index \<open>row\<close> two fresh presence arrays; the inner loop probes
  \<open>table[row][column]\<close> and the transposed \<open>table[column][row]\<close> and returns false at the
  first value out of range or already present.
\<close>

fun latinInner ::
  "int list list \<Rightarrow> nat \<Rightarrow> nat list \<Rightarrow> bool list \<Rightarrow> bool list \<Rightarrow> error + bool" where
  "latinInner t row [] rowUsed columnUsed = Inr True"
| "latinInner t row (column # cs) rowUsed columnUsed =
     (case readCell t row column of
        Inl e \<Rightarrow> Inl e
      | Inr rowValue \<Rightarrow>
         (case readCell t column row of
            Inl e \<Rightarrow> Inl e
          | Inr columnValue \<Rightarrow>
             (if rowValue < 0 \<or> rowValue \<ge> int (length t) \<or>
                 columnValue < 0 \<or> columnValue \<ge> int (length t) \<or>
                 rowUsed ! nat rowValue \<or> columnUsed ! nat columnValue
              then Inr False
              else latinInner t row cs (rowUsed[nat rowValue := True])
                     (columnUsed[nat columnValue := True]))))"

fun latinOuter :: "int list list \<Rightarrow> nat list \<Rightarrow> error + bool" where
  "latinOuter t [] = Inr True"
| "latinOuter t (row # rs) =
     (case latinInner t row [0..<length t]
             (replicate (length t) False) (replicate (length t) False) of
        Inl e \<Rightarrow> Inl e
      | Inr ok \<Rightarrow> (if ok then latinOuter t rs else Inr False))"

definition isLatinSquare :: "int list list \<Rightarrow> error + bool" where
  "isLatinSquare t = latinOuter t [0..<length t]"

text \<open>The Latin-square property in the words of the specification.\<close>

definition entriesInRange :: "int list list \<Rightarrow> bool" where
  "entriesInRange t =
     (\<forall>i < length t. \<forall>j < length t. 0 \<le> t ! i ! j \<and> t ! i ! j < int (length t))"

definition tableColumn :: "int list list \<Rightarrow> nat \<Rightarrow> int list" where
  "tableColumn t j = map (\<lambda>r. r ! j) t"

definition noRepeats :: "int list list \<Rightarrow> bool" where
  "noRepeats t =
     ((\<forall>i < length t. distinct (t ! i)) \<and> (\<forall>j < length t. distinct (tableColumn t j)))"

definition isPermutationOfSymbols :: "nat \<Rightarrow> int list \<Rightarrow> bool" where
  "isPermutationOfSymbols n xs = (length xs = n \<and> set xs = {0..<int n})"

definition rowsAndColumnsPermutations :: "int list list \<Rightarrow> bool" where
  "rowsAndColumnsPermutations t =
     ((\<forall>i < length t. isPermutationOfSymbols (length t) (t ! i)) \<and>
      (\<forall>j < length t. isPermutationOfSymbols (length t) (tableColumn t j)))"

definition symbolInRange :: "nat \<Rightarrow> int \<Rightarrow> bool" where
  "symbolInRange n v = (0 \<le> v \<and> v < int n)"

text \<open>
  A permutation of the indices \<open>0..n-1\<close>, as the list of its images; applied to the
  rows of a table (row \<open>i\<close> of the result is row \<open>p ! i\<close>) and to its columns.
\<close>

definition isIndexPermutation :: "nat \<Rightarrow> nat list \<Rightarrow> bool" where
  "isIndexPermutation n p = (length p = n \<and> set p = {0..<n})"

definition permuteRows :: "nat list \<Rightarrow> int list list \<Rightarrow> int list list" where
  "permuteRows p t = map (\<lambda>i. t ! i) p"

definition permuteColumns :: "nat list \<Rightarrow> int list list \<Rightarrow> int list list" where
  "permuteColumns p t = map (\<lambda>r. map (\<lambda>j. r ! j) p) t"

section \<open>The subquasigroup detector\<close>

text \<open>
  A \<open>std::unordered_set<int>\<close> is modelled by the duplicate-free list of its elements
  in insertion order. The order in which the C++ container enumerates its elements is
  unspecified; the results below are stated in terms of the set of elements of these
  lists.
\<close>

text \<open>
  The orbit walk of \<open>hasSubquasigroups\<close>:
  \<open>while (cycleElements.insert(currentElement).second)\<close> marks the element visited and
  squares it. \<open>visitedElements\<close> is a \<open>std::vector<bool>\<close>, written without a bounds
  check before \<open>applyOperation\<close> gets to throw.
\<close>

function cycleLoop ::
  "quasigroup \<Rightarrow> bool list \<Rightarrow> int list \<Rightarrow> int \<Rightarrow> error + (bool list \<times> int list)" where
  "cycleLoop q visitedElements cycleElements currentElement =
     (if currentElement \<in> set cycleElements then Inr (visitedElements, cycleElements)
      else if currentElement < 0 \<or> int (length visitedElements) \<le> currentElement
      then Inl Undefined
      else (case applyOperation q currentElement currentElement of
              Inl e \<Rightarrow> Inl e
            | Inr nextElement \<Rightarrow>
                cycleLoop q (visitedElements[nat currentElement := True])
                  (cycleElements @ [currentElement]) nextElement))"
  by pat_completeness auto

lemma applyOperation_Inr_range:
  "applyOperation q a b = Inr r \<Longrightarrow> 0 \<le> a \<and> a < order q \<and> 0 \<le> b \<and> b < order q"
  by (simp add: applyOperation_def split: if_splits)

termination cycleLoop
proof (relation "measure (\<lambda>(q, v, cyc, cur). card ({0..<order q} - set cyc))")
  show "wf (measure (\<lambda>(q, v, cyc, cur). card ({0..<order q} - set cyc)))"
    by simp
next
  fix q :: quasigroup and visitedElements :: "bool list" and cycleElements :: "int list"
    and currentElement nextElement :: int
  assume new: "currentElement \<notin> set cycleElements"
    and ap: "applyOperation q currentElement currentElement = Inr nextElement"
  have "currentElement \<in> {0..<order q} - set cycleElements"
    using new applyOperation_Inr_range [OF ap] by simp
  moreover have "{0..<order q} - set (cycleElements @ [currentElement]) =
      ({0..<order q} - set cycleElements) - {currentElement}"
    by auto
  ultimately have "card ({0..<order q} - set (cycleElements @ [currentElement])) <
      card ({0..<order q} - set cycleElements)"
    by (simp only: card_Diff1_less finite_Diff finite_atLeastLessThan_int)
  then show "((q, visitedElements[nat currentElement := True],
        cycleElements @ [currentElement], nextElement),
       (q, visitedElements, cycleElements, currentElement))
      \<in> measure (\<lambda>(q, v, cyc, cur). card ({0..<order q} - set cyc))"
    by simp
qed

text \<open>
  \<open>verifyProperSubquasigroup\<close>. One round of the \<open>while (setChanged)\<close> loop runs
  over all pairs of the snapshot \<open>currentElements\<close>; \<open>Inr (Inl b)\<close> is the early
  \<open>return b\<close> from inside the round, \<open>Inr (Inr (closedSet, setChanged))\<close> the state
  after it. The division \<open>order / 2\<close> is on a non-negative \<open>int\<close>.
\<close>

fun properPairs ::
  "quasigroup \<Rightarrow> (int \<times> int) list \<Rightarrow> int list \<Rightarrow> bool \<Rightarrow> error + (bool + int list \<times> bool)" where
  "properPairs q [] closedSet setChanged = Inr (Inr (closedSet, setChanged))"
| "properPairs q ((firstElement, secondElement) # ps) closedSet setChanged =
     (case applyOperation q firstElement secondElement of
        Inl e \<Rightarrow> Inl e
      | Inr result \<Rightarrow>
          (if result \<in> set closedSet then properPairs q ps closedSet setChanged
           else if int (length (closedSet @ [result])) > order q div 2 then Inr (Inl False)
           else properPairs q ps (closedSet @ [result]) True))"

lemma properPairs_bounded:
  "properPairs q ps cs ch = Inr (Inr (cs', ch')) \<Longrightarrow> int (length cs) \<le> order q div 2 \<Longrightarrow>
     int (length cs') \<le> order q div 2"
proof (induction ps arbitrary: cs ch)
  case Nil
  then show ?case by simp
next
  case (Cons p ps)
  obtain a b where p: "p = (a, b)" by (cases p)
  from Cons.prems(1) obtain r where r: "applyOperation q a b = Inr r"
    unfolding p by (cases "applyOperation q a b") simp_all
  show ?case
  proof (cases "r \<in> set cs")
    case True
    then show ?thesis using Cons.prems Cons.IH [of cs ch] p r by simp
  next
    case False
    then have small: "int (length (cs @ [r])) \<le> order q div 2"
      and rec: "properPairs q ps (cs @ [r]) True = Inr (Inr (cs', ch'))"
      using Cons.prems(1) p r by (simp_all split: if_splits)
    show ?thesis by (rule Cons.IH [OF rec small])
  qed
qed

lemma properPairs_grows:
  "properPairs q ps cs ch = Inr (Inr (cs', ch')) \<Longrightarrow>
     (cs' = cs \<and> ch' = ch) \<or>
     (ch' \<and> length cs < length cs' \<and> int (length cs') \<le> order q div 2)"
proof (induction ps arbitrary: cs ch)
  case Nil
  then show ?case by simp
next
  case (Cons p ps)
  obtain a b where p: "p = (a, b)" by (cases p)
  from Cons.prems(1) obtain r where r: "applyOperation q a b = Inr r"
    unfolding p by (cases "applyOperation q a b") simp_all
  show ?case
  proof (cases "r \<in> set cs")
    case True
    then show ?thesis using Cons.prems Cons.IH [of cs ch] p r by simp
  next
    case False
    then have small: "int (length (cs @ [r])) \<le> order q div 2"
      and rec: "properPairs q ps (cs @ [r]) True = Inr (Inr (cs', ch'))"
      using Cons.prems(1) p r by (simp_all split: if_splits)
    have "int (length cs') \<le> order q div 2"
      by (rule properPairs_bounded [OF rec small])
    then show ?thesis
      using Cons.IH [OF rec] by auto
  qed
qed

function properLoop :: "quasigroup \<Rightarrow> int list \<Rightarrow> error + bool" where
  "properLoop q closedSet =
     (case properPairs q (List.product closedSet closedSet) closedSet False of
        Inl e \<Rightarrow> Inl e
      | Inr (Inl b) \<Rightarrow> Inr b
      | Inr (Inr (closedSet', setChanged)) \<Rightarrow>
          (if setChanged then properLoop q closedSet'
           else Inr (int (length closedSet') < order q)))"
  by pat_completeness auto

termination properLoop
proof (relation "measure (\<lambda>(q, cs). nat (order q div 2) + 1 - length cs)")
  show "wf (measure (\<lambda>(q, cs). nat (order q div 2) + 1 - length cs))"
    by simp
next
  fix q :: quasigroup and closedSet :: "int list" and x2 :: "bool + int list \<times> bool"
    and x2a :: "int list \<times> bool" and closedSet' :: "int list" and setChanged :: bool
  assume "properPairs q (List.product closedSet closedSet) closedSet False = Inr x2"
    "x2 = Inr x2a" "(closedSet', setChanged) = x2a" "setChanged"
  then have "properPairs q (List.product closedSet closedSet) closedSet False =
      Inr (Inr (closedSet', True))"
    by simp
  from properPairs_grows [OF this]
  have "length closedSet < length closedSet'" "int (length closedSet') \<le> order q div 2"
    by simp_all
  then show "((q, closedSet'), (q, closedSet))
      \<in> measure (\<lambda>(q, cs). nat (order q div 2) + 1 - length cs)"
    by simp
qed

definition verifyProperSubquasigroup :: "quasigroup \<Rightarrow> int list \<Rightarrow> error + bool" where
  "verifyProperSubquasigroup q seedSet = properLoop q seedSet"

text \<open>\<open>verifyNonTrivialSubquasigroup\<close>: the same closure rounds without the size test.\<close>

fun nonTrivialPairs ::
  "quasigroup \<Rightarrow> (int \<times> int) list \<Rightarrow> int list \<Rightarrow> bool \<Rightarrow> error + int list \<times> bool" where
  "nonTrivialPairs q [] closedSet setChanged = Inr (closedSet, setChanged)"
| "nonTrivialPairs q ((firstElement, secondElement) # ps) closedSet setChanged =
     (case applyOperation q firstElement secondElement of
        Inl e \<Rightarrow> Inl e
      | Inr result \<Rightarrow>
          (if result \<in> set closedSet then nonTrivialPairs q ps closedSet setChanged
           else nonTrivialPairs q ps (closedSet @ [result]) True))"

definition elementsInRange :: "quasigroup \<Rightarrow> int list \<Rightarrow> bool" where
  "elementsInRange q xs = (\<forall>x \<in> set xs. 0 \<le> x \<and> x < order q)"

lemma nonTrivialPairs_grows:
  "nonTrivialPairs q ps cs ch = Inr (cs', ch') \<Longrightarrow>
     (\<forall>p \<in> set ps. 0 \<le> fst p \<and> fst p < order q) \<and> set cs \<subseteq> set cs' \<and>
     ((cs' = cs \<and> ch' = ch) \<or> (ch' \<and> set cs \<noteq> set cs'))"
proof (induction ps arbitrary: cs ch)
  case Nil
  then show ?case by simp
next
  case (Cons p ps)
  obtain a b where p: "p = (a, b)" by (cases p)
  from Cons.prems(1) obtain r where r: "applyOperation q a b = Inr r"
    unfolding p by (cases "applyOperation q a b") simp_all
  have rng: "0 \<le> fst p \<and> fst p < order q"
    using applyOperation_Inr_range [OF r] p by simp
  show ?case
  proof (cases "r \<in> set cs")
    case True
    then have rec: "nonTrivialPairs q ps cs ch = Inr (cs', ch')"
      using Cons.prems(1) p r by simp
    from Cons.IH [OF rec] rng show ?thesis by simp
  next
    case False
    then have rec: "nonTrivialPairs q ps (cs @ [r]) True = Inr (cs', ch')"
      using Cons.prems(1) p r by simp
    from Cons.IH [OF rec]
    have a: "\<forall>p \<in> set ps. 0 \<le> fst p \<and> fst p < order q"
      and b: "set (cs @ [r]) \<subseteq> set cs'" and c: "ch'"
      by auto
    from b False have "set cs \<subseteq> set cs'" "set cs \<noteq> set cs'"
      by auto
    with a c rng show ?thesis by simp
  qed
qed

function nonTrivialLoop :: "quasigroup \<Rightarrow> int list \<Rightarrow> error + bool" where
  "nonTrivialLoop q closedSet =
     (case nonTrivialPairs q (List.product closedSet closedSet) closedSet False of
        Inl e \<Rightarrow> Inl e
      | Inr (closedSet', setChanged) \<Rightarrow>
          (if setChanged then nonTrivialLoop q closedSet'
           else Inr (int (length closedSet') > 1)))"
  by pat_completeness auto

definition closureMeasure :: "quasigroup \<times> int list \<Rightarrow> nat" where
  "closureMeasure = (\<lambda>(q, cs).
     if elementsInRange q cs then Suc (card ({0..<order q} - set cs)) else 0)"

termination nonTrivialLoop
proof (relation "measure closureMeasure")
  show "wf (measure closureMeasure)"
    by simp
next
  fix q :: quasigroup and closedSet :: "int list" and x2 :: "int list \<times> bool"
    and closedSet' :: "int list" and setChanged :: bool
  assume "nonTrivialPairs q (List.product closedSet closedSet) closedSet False = Inr x2"
    "(closedSet', setChanged) = x2" "setChanged"
  then have run: "nonTrivialPairs q (List.product closedSet closedSet) closedSet False =
      Inr (closedSet', True)"
    by simp
  from nonTrivialPairs_grows [OF run]
  have rng: "\<forall>p \<in> set (List.product closedSet closedSet). 0 \<le> fst p \<and> fst p < order q"
    and sub: "set closedSet \<subset> set closedSet'"
    by auto
  have inr: "elementsInRange q closedSet"
    unfolding elementsInRange_def
  proof
    fix x assume "x \<in> set closedSet"
    then have "(x, x) \<in> set (List.product closedSet closedSet)" by simp
    with rng show "0 \<le> x \<and> x < order q" by fastforce
  qed
  have "closureMeasure (q, closedSet') < closureMeasure (q, closedSet)"
  proof (cases "elementsInRange q closedSet'")
    case False
    then show ?thesis using inr by (simp add: closureMeasure_def)
  next
    case True
    have "{0..<order q} - set closedSet' \<subset> {0..<order q} - set closedSet"
      using sub True by (auto simp: elementsInRange_def)
    then have "card ({0..<order q} - set closedSet') < card ({0..<order q} - set closedSet)"
      by (intro psubset_card_mono) simp_all
    then show ?thesis using inr True by (simp add: closureMeasure_def)
  qed
  then show "((q, closedSet'), (q, closedSet)) \<in> measure closureMeasure"
    by simp
qed

definition verifyNonTrivialSubquasigroup :: "quasigroup \<Rightarrow> int list \<Rightarrow> error + bool" where
  "verifyNonTrivialSubquasigroup q seedSet =
     (if length seedSet = 1 then Inr False else nonTrivialLoop q seedSet)"

text \<open>
  \<open>hasSubquasigroups\<close>: the \<open>for\<close> loop over the start elements, each unvisited one
  seeding an orbit that is then handed to the verifier of the requested mode.
\<close>

fun hasSubquasigroupsLoop :: "quasigroup \<Rightarrow> bool \<Rightarrow> bool list \<Rightarrow> nat list \<Rightarrow> error + bool" where
  "hasSubquasigroupsLoop q checkForProperSubquasigroups visitedElements [] = Inr False"
| "hasSubquasigroupsLoop q checkForProperSubquasigroups visitedElements (startElement # rest) =
     (if visitedElements ! startElement
      then hasSubquasigroupsLoop q checkForProperSubquasigroups visitedElements rest
      else (case cycleLoop q visitedElements [] (int startElement) of
              Inl e \<Rightarrow> Inl e
            | Inr (visitedElements', cycleElements) \<Rightarrow>
                (case (if checkForProperSubquasigroups
                       then verifyProperSubquasigroup q cycleElements
                       else verifyNonTrivialSubquasigroup q cycleElements) of
                   Inl e \<Rightarrow> Inl e
                 | Inr found \<Rightarrow>
                     (if found then Inr True
                      else hasSubquasigroupsLoop q checkForProperSubquasigroups
                             visitedElements' rest))))"

definition hasSubquasigroups :: "quasigroup \<Rightarrow> bool \<Rightarrow> error + bool" where
  "hasSubquasigroups q checkForProperSubquasigroups =
     hasSubquasigroupsLoop q checkForProperSubquasigroups
       (replicate (nat (order q)) False) [0..<nat (order q)]"

text \<open>
  \<open>generateCyclicGroupCayleyTable\<close>: \<open>(row + column) % order\<close> on non-negative
  \<open>int\<close>s. A table of \<open>order\<close> rows of \<open>order\<close> \<open>int\<close>s does not fit in memory
  long before \<open>row + column\<close> could leave the 32-bit range, so the sum is not wrapped.
\<close>

definition generateCyclicGroupCayleyTable :: "nat \<Rightarrow> int list list" where
  "generateCyclicGroupCayleyTable n =
     map (\<lambda>row. map (\<lambda>column. (int row + int column) mod int n) [0..<n]) [0..<n]"

text \<open>
  The tables the detector is meant for: square, with every entry an element. An
  element is idempotent when its square is itself.
\<close>

definition validTable :: "int list list \<Rightarrow> bool" where
  "validTable t = (squareTable t \<and> entriesInRange t)"

definition allIdempotent :: "int list list \<Rightarrow> bool" where
  "allIdempotent t = (\<forall>x < length t. t ! x ! x = int x)"


section \<open>Bounds-checked multiplication\<close>

lemma readCell_square:
  "squareTable t \<Longrightarrow> i < length t \<Longrightarrow> j < length t \<Longrightarrow> readCell t i j = Inr (t ! i ! j)"
  by (simp add: readCell_def squareTable_def)

text \<open>
  Claim C7. On a quasigroup of order \<open>n\<close> (an \<open>n\<close>-by-\<open>n\<close> table), \<open>applyOperation a b\<close>
  (and \<open>multiply\<close> of the older source file) returns \<open>table[a][b]\<close> when both indices
  lie in \<open>[0, n)\<close>, and signals \<open>OutOfRange\<close>, returning no value, otherwise.
\<close>

theorem applyOperation_contract:
  assumes "squareTable t"
  shows "applyOperation (Quasigroup t) a b =
           (if 0 \<le> a \<and> a < int (length t) \<and> 0 \<le> b \<and> b < int (length t)
            then Inr (t ! nat a ! nat b) else Inl OutOfRange)
         \<and> multiply (Quasigroup t) a b = applyOperation (Quasigroup t) a b"
proof -
  have "readCell t (nat a) (nat b) = Inr (t ! nat a ! nat b)"
    if "0 \<le> a" "a < int (length t)" "0 \<le> b" "b < int (length t)"
    using that assms by (intro readCell_square) auto
  then show ?thesis
    by (simp add: applyOperation_def multiply_def Quasigroup_def)
qed

theorem applyOperation_contract_witness:
  "squareTable [[0, 1], [1, 0]]
   \<and> applyOperation (Quasigroup [[0, 1], [1, 0]]) 1 0 = Inr 1
   \<and> applyOperation (Quasigroup [[0, 1], [1, 0]]) 2 0 = Inl OutOfRange
   \<and> applyOperation (Quasigroup [[0, 1], [1, 0]]) 0 (- 1) = Inl OutOfRange"
proof -
  have sq: "squareTable [[0, 1], [1, 0]]"
    by (simp add: squareTable_def)
  show ?thesis
    using sq applyOperation_contract [OF sq, of 1 0]
      applyOperation_contract [OF sq, of 2 0]
      applyOperation_contract [OF sq, of 0 "- 1"]
    by simp
qed

section \<open>What the validator decides\<close>

lemma nat_eq_in_range:
  "symbolInRange n a \<Longrightarrow> symbolInRange n b \<Longrightarrow> (nat a = nat b) = (a = b)"
  by (auto simp: symbolInRange_def)

lemma used_update:
  assumes "length used = n" "symbolInRange n v" "symbolInRange n w"
  shows "(used[nat v := True]) ! nat w = (w = v \<or> used ! nat w)"
proof -
  have "nat v < length used" "nat w < length used"
    using assms by (auto simp: symbolInRange_def)
  then show ?thesis
    using assms by (auto simp: nth_list_update symbolInRange_def)
qed

lemma latinInner_char:
  assumes sq: "squareTable t" and r: "row < length t"
  shows "set cs \<subseteq> {..<length t} \<Longrightarrow> length ru = length t \<Longrightarrow> length cu = length t \<Longrightarrow>
    latinInner t row cs ru cu =
      Inr ((\<forall>c \<in> set cs. symbolInRange (length t) (t ! row ! c) \<and> symbolInRange (length t) (t ! c ! row))
           \<and> distinct (map (\<lambda>c. t ! row ! c) cs) \<and> distinct (map (\<lambda>c. t ! c ! row) cs)
           \<and> (\<forall>c \<in> set cs. \<not> ru ! nat (t ! row ! c)) \<and> (\<forall>c \<in> set cs. \<not> cu ! nat (t ! c ! row)))"
proof (induction cs arbitrary: ru cu)
  case Nil
  then show ?case by simp
next
  case (Cons c cs)
  let ?n = "length t"
  let ?rv = "t ! row ! c" and ?cv = "t ! c ! row"
  from Cons.prems have c: "c < ?n" and cs: "set cs \<subseteq> {..<?n}" by auto
  have rd: "readCell t row c = Inr ?rv" "readCell t c row = Inr ?cv"
    using sq r c by (simp_all add: readCell_square)
  show ?case
  proof (cases "symbolInRange ?n ?rv \<and> symbolInRange ?n ?cv \<and> \<not> ru ! nat ?rv \<and> \<not> cu ! nat ?cv")
    case False
    then show ?thesis
      using rd by (auto simp: symbolInRange_def)
  next
    case True
    then have ok: "symbolInRange ?n ?rv" "symbolInRange ?n ?cv" "\<not> ru ! nat ?rv" "\<not> cu ! nat ?cv"
      by simp_all
    have step: "latinInner t row (c # cs) ru cu =
        latinInner t row cs (ru[nat ?rv := True]) (cu[nat ?cv := True])"
      using rd ok by (auto simp: symbolInRange_def)
    have ih: "latinInner t row cs (ru[nat ?rv := True]) (cu[nat ?cv := True]) =
      Inr ((\<forall>c \<in> set cs. symbolInRange ?n (t ! row ! c) \<and> symbolInRange ?n (t ! c ! row))
           \<and> distinct (map (\<lambda>c. t ! row ! c) cs) \<and> distinct (map (\<lambda>c. t ! c ! row) cs)
           \<and> (\<forall>c \<in> set cs. \<not> (ru[nat ?rv := True]) ! nat (t ! row ! c))
           \<and> (\<forall>c \<in> set cs. \<not> (cu[nat ?cv := True]) ! nat (t ! c ! row)))"
      using Cons.IH [OF cs] Cons.prems(2,3) by simp
    show ?thesis
    proof (cases "\<forall>c \<in> set cs. symbolInRange ?n (t ! row ! c) \<and> symbolInRange ?n (t ! c ! row)")
      case False
      then show ?thesis unfolding step ih by auto
    next
      case all: True
      have ru': "\<And>x. x \<in> set cs \<Longrightarrow>
          (ru[nat ?rv := True]) ! nat (t ! row ! x) = (t ! row ! x = ?rv \<or> ru ! nat (t ! row ! x))"
        using all ok(1) Cons.prems(2) by (intro used_update) auto
      have cu': "\<And>x. x \<in> set cs \<Longrightarrow>
          (cu[nat ?cv := True]) ! nat (t ! x ! row) = (t ! x ! row = ?cv \<or> cu ! nat (t ! x ! row))"
        using all ok(2) Cons.prems(3) by (intro used_update) auto
      show ?thesis
        unfolding step ih using ok all ru' cu' by (auto simp: image_iff)
    qed
  qed
qed

lemma map_nth_table: "map (\<lambda>c. f (t ! c)) [0..<length t] = map f t"
  by (rule nth_equalityI) simp_all

lemma latinInner_full:
  assumes sq: "squareTable t" and r: "row < length t"
  shows "latinInner t row [0..<length t] (replicate (length t) False) (replicate (length t) False) =
     Inr ((\<forall>c < length t. symbolInRange (length t) (t ! row ! c) \<and> symbolInRange (length t) (t ! c ! row))
          \<and> distinct (t ! row) \<and> distinct (tableColumn t row))"
proof -
  have len: "length (t ! row) = length t"
    using sq r by (simp add: squareTable_def)
  have rw: "map (\<lambda>c. t ! row ! c) [0..<length t] = t ! row"
    using len by (intro nth_equalityI) simp_all
  have cl: "map (\<lambda>c. t ! c ! row) [0..<length t] = tableColumn t row"
    unfolding tableColumn_def by (rule map_nth_table)
  have nu: "\<not> replicate (length t) False ! nat v" if "symbolInRange (length t) v" for v
  proof -
    have "nat v < length t"
      using that by (auto simp: symbolInRange_def)
    then show ?thesis by simp
  qed
  have "latinInner t row [0..<length t] (replicate (length t) False) (replicate (length t) False) =
      Inr ((\<forall>c \<in> set [0..<length t]. symbolInRange (length t) (t ! row ! c) \<and> symbolInRange (length t) (t ! c ! row))
           \<and> distinct (t ! row) \<and> distinct (tableColumn t row)
           \<and> (\<forall>c \<in> set [0..<length t]. \<not> replicate (length t) False ! nat (t ! row ! c))
           \<and> (\<forall>c \<in> set [0..<length t]. \<not> replicate (length t) False ! nat (t ! c ! row)))"
  proof -
    have sub: "set [0..<length t] \<subseteq> {..<length t}" by auto
    show ?thesis
      using latinInner_char [OF sq r sub, of "replicate (length t) False" "replicate (length t) False"]
      by (simp add: rw cl)
  qed
  then show ?thesis
    using nu by auto
qed

lemma latinOuter_char:
  assumes sq: "squareTable t"
  shows "set rs \<subseteq> {..<length t} \<Longrightarrow>
    latinOuter t rs =
      Inr (\<forall>row \<in> set rs. (\<forall>c < length t. symbolInRange (length t) (t ! row ! c) \<and> symbolInRange (length t) (t ! c ! row))
          \<and> distinct (t ! row) \<and> distinct (tableColumn t row))"
proof (induction rs)
  case Nil
  then show ?case by simp
next
  case (Cons r rs)
  then have r: "r < length t" and rs: "set rs \<subseteq> {..<length t}" by auto
  show ?case
    using Cons.IH [OF rs] latinInner_full [OF sq r] by auto
qed

lemma isLatinSquare_char:
  assumes sq: "squareTable t"
  shows "isLatinSquare t = Inr (entriesInRange t \<and> noRepeats t)"
proof -
  have "isLatinSquare t =
      Inr (\<forall>row \<in> set [0..<length t]. (\<forall>c < length t. symbolInRange (length t) (t ! row ! c) \<and> symbolInRange (length t) (t ! c ! row))
          \<and> distinct (t ! row) \<and> distinct (tableColumn t row))"
    unfolding isLatinSquare_def by (rule latinOuter_char [OF sq]) auto
  also have "\<dots> = Inr (entriesInRange t \<and> noRepeats t)"
    by (auto simp: entriesInRange_def noRepeats_def symbolInRange_def)
  finally show ?thesis .
qed

lemma distinct_range_permutation:
  assumes "length xs = n"
  shows "((\<forall>i < n. 0 \<le> xs ! i \<and> xs ! i < int n) \<and> distinct xs) = isPermutationOfSymbols n xs"
proof
  assume a: "(\<forall>i < n. 0 \<le> xs ! i \<and> xs ! i < int n) \<and> distinct xs"
  then have sub: "set xs \<subseteq> {0..<int n}"
    using assms by (auto simp: in_set_conv_nth)
  have "card (set xs) = n"
    using a assms by (simp add: distinct_card)
  then have "card (set xs) = card {0..<int n}" by simp
  with sub have "set xs = {0..<int n}"
    by (intro card_subset_eq) auto
  then show "isPermutationOfSymbols n xs"
    using assms by (simp add: isPermutationOfSymbols_def)
next
  assume p: "isPermutationOfSymbols n xs"
  then have s: "set xs = {0..<int n}" and l: "length xs = n"
    by (simp_all add: isPermutationOfSymbols_def)
  have "card (set xs) = length xs" using s l by simp
  then have "distinct xs" by (rule card_distinct)
  moreover have "\<forall>i < n. 0 \<le> xs ! i \<and> xs ! i < int n"
  proof (intro allI impI)
    fix i assume "i < n"
    then have "xs ! i \<in> set xs" using l by simp
    then show "0 \<le> xs ! i \<and> xs ! i < int n" using s by simp
  qed
  ultimately show "(\<forall>i < n. 0 \<le> xs ! i \<and> xs ! i < int n) \<and> distinct xs" by simp
qed

lemma latin_permutations:
  assumes sq: "squareTable t"
  shows "(entriesInRange t \<and> noRepeats t) = rowsAndColumnsPermutations t"
proof -
  let ?n = "length t"
  have rl: "\<And>i. i < ?n \<Longrightarrow> length (t ! i) = ?n"
    using sq by (simp add: squareTable_def)
  have cl: "\<And>j. length (tableColumn t j) = ?n"
    by (simp add: tableColumn_def)
  have cn: "\<And>i j. i < ?n \<Longrightarrow> tableColumn t j ! i = t ! i ! j"
    by (simp add: tableColumn_def)
  have rows: "\<And>i. i < ?n \<Longrightarrow>
      ((\<forall>j < ?n. 0 \<le> t ! i ! j \<and> t ! i ! j < int ?n) \<and> distinct (t ! i)) =
      isPermutationOfSymbols ?n (t ! i)"
    using distinct_range_permutation [OF rl] by simp
  have cols: "\<And>j. j < ?n \<Longrightarrow>
      ((\<forall>i < ?n. 0 \<le> t ! i ! j \<and> t ! i ! j < int ?n) \<and> distinct (tableColumn t j)) =
      isPermutationOfSymbols ?n (tableColumn t j)"
    using distinct_range_permutation [OF cl] cn by simp
  show ?thesis
  proof
    assume a: "entriesInRange t \<and> noRepeats t"
    show "rowsAndColumnsPermutations t"
      unfolding rowsAndColumnsPermutations_def
    proof (intro conjI allI impI)
      fix i assume i: "i < ?n"
      show "isPermutationOfSymbols ?n (t ! i)"
        using a i rows [OF i, symmetric] by (simp add: entriesInRange_def noRepeats_def)
    next
      fix j assume j: "j < ?n"
      show "isPermutationOfSymbols ?n (tableColumn t j)"
        using a j cols [OF j, symmetric] by (simp add: entriesInRange_def noRepeats_def)
    qed
  next
    assume p: "rowsAndColumnsPermutations t"
    have r: "\<And>i. i < ?n \<Longrightarrow> (\<forall>j < ?n. 0 \<le> t ! i ! j \<and> t ! i ! j < int ?n) \<and> distinct (t ! i)"
      using p rows by (simp add: rowsAndColumnsPermutations_def)
    have c: "\<And>j. j < ?n \<Longrightarrow> distinct (tableColumn t j)"
      using p cols by (simp add: rowsAndColumnsPermutations_def)
    show "entriesInRange t \<and> noRepeats t"
      using r c by (simp add: entriesInRange_def noRepeats_def)
  qed
qed


text \<open>
  Claim C8. On every square \<open>n\<close>-by-\<open>n\<close> table of integers the validator returns
  true if and only if every entry lies in \<open>[0, n)\<close> and no value repeats within a row
  or within a column; and that condition says that every row and every column is a
  permutation of \<open>0..n-1\<close>.
\<close>

theorem isLatinSquare_iff:
  assumes "squareTable t"
  shows "isLatinSquare t = Inr (entriesInRange t \<and> noRepeats t)
         \<and> (entriesInRange t \<and> noRepeats t) = rowsAndColumnsPermutations t"
  using isLatinSquare_char [OF assms] latin_permutations [OF assms] by simp

theorem isLatinSquare_iff_witness:
  "squareTable [[0, 1], [1, 0]] \<and> isLatinSquare [[0, 1], [1, 0]] = Inr True
   \<and> rowsAndColumnsPermutations [[0, 1], [1, 0]]
   \<and> squareTable [[0, 0], [1, 1]] \<and> isLatinSquare [[0, 0], [1, 1]] = Inr False
   \<and> \<not> rowsAndColumnsPermutations [[0, 0], [1, 1]]"
proof -
  have sq: "squareTable [[0, 1], [1, 0]]" "squareTable [[0, 0], [1, 1]]"
    by (simp_all add: squareTable_def)
  have ev: "isLatinSquare [[0, 1], [1, 0]] = Inr True" "isLatinSquare [[0, 0], [1, 1]] = Inr False"
    by (simp_all add: isLatinSquare_def readCell_def)
  show ?thesis
    using sq ev isLatinSquare_iff [OF sq(1)] isLatinSquare_iff [OF sq(2)] by simp
qed

section \<open>Permuting rows and columns\<close>

lemma isLatinSquare_perms:
  assumes "squareTable t"
  shows "isLatinSquare t = Inr (rowsAndColumnsPermutations t)"
  using isLatinSquare_char [OF assms] latin_permutations [OF assms] by simp

lemma set_reindex:
  assumes "isIndexPermutation (length xs) p"
  shows "set (map (\<lambda>i. xs ! i) p) = set xs"
proof -
  have "set (map (\<lambda>i. xs ! i) p) = (\<lambda>i. xs ! i) ` {0..<length xs}"
    using assms by (simp add: isIndexPermutation_def)
  also have "\<dots> = set xs"
    by (auto simp: set_conv_nth)
  finally show ?thesis .
qed

lemma reindex_permutation:
  assumes "isPermutationOfSymbols n xs" "isIndexPermutation n p"
  shows "isPermutationOfSymbols n (map (\<lambda>i. xs ! i) p)"
proof -
  have l: "length xs = n" using assms(1) by (simp add: isPermutationOfSymbols_def)
  have "set (map (\<lambda>i. xs ! i) p) = set xs"
    using assms(2) l by (intro set_reindex) simp
  then show ?thesis
    using assms by (simp add: isPermutationOfSymbols_def isIndexPermutation_def)
qed

lemma permuteRows_latin:
  assumes sq: "squareTable t" and lat: "rowsAndColumnsPermutations t"
    and p: "isIndexPermutation (length t) p"
  shows "squareTable (permuteRows p t) \<and> rowsAndColumnsPermutations (permuteRows p t)"
proof -
  let ?n = "length t"
  have lp: "length p = ?n" and sp: "set p = {0..<?n}"
    using p by (simp_all add: isIndexPermutation_def)
  have len: "length (permuteRows p t) = ?n"
    by (simp add: permuteRows_def lp)
  have pi: "\<And>i. i < ?n \<Longrightarrow> p ! i < ?n"
    using lp sp by (metis atLeastLessThan_iff nth_mem)
  have row: "\<And>i. i < ?n \<Longrightarrow> permuteRows p t ! i = t ! (p ! i)"
    by (simp add: permuteRows_def lp)
  have sq': "squareTable (permuteRows p t)"
    unfolding squareTable_def len
  proof
    fix r assume "r \<in> set (permuteRows p t)"
    then obtain i where "i \<in> set p" "r = t ! i"
      by (auto simp: permuteRows_def)
    then show "length r = ?n"
      using sq sp by (simp add: squareTable_def)
  qed
  have col: "tableColumn (permuteRows p t) j = map (\<lambda>i. tableColumn t j ! i) p" for j
  proof -
    have "\<And>i. i \<in> set p \<Longrightarrow> tableColumn t j ! i = t ! i ! j"
      using sp by (simp add: tableColumn_def)
    then show ?thesis
      by (simp add: tableColumn_def permuteRows_def)
  qed
  have "rowsAndColumnsPermutations (permuteRows p t)"
    unfolding rowsAndColumnsPermutations_def len
  proof (intro conjI allI impI)
    fix i assume i: "i < ?n"
    show "isPermutationOfSymbols ?n (permuteRows p t ! i)"
      using lat pi [OF i] row [OF i] by (simp add: rowsAndColumnsPermutations_def)
  next
    fix j assume j: "j < ?n"
    have "isPermutationOfSymbols ?n (tableColumn t j)"
      using lat j by (simp add: rowsAndColumnsPermutations_def)
    then show "isPermutationOfSymbols ?n (tableColumn (permuteRows p t) j)"
      unfolding col using p by (rule reindex_permutation)
  qed
  with sq' show ?thesis by simp
qed

lemma permuteColumns_latin:
  assumes sq: "squareTable t" and lat: "rowsAndColumnsPermutations t"
    and p: "isIndexPermutation (length t) p"
  shows "squareTable (permuteColumns p t) \<and> rowsAndColumnsPermutations (permuteColumns p t)"
proof -
  let ?n = "length t"
  have lp: "length p = ?n" and sp: "set p = {0..<?n}"
    using p by (simp_all add: isIndexPermutation_def)
  have len: "length (permuteColumns p t) = ?n"
    by (simp add: permuteColumns_def)
  have pj: "\<And>j. j < ?n \<Longrightarrow> p ! j < ?n"
    using lp sp by (metis atLeastLessThan_iff nth_mem)
  have row: "\<And>i. i < ?n \<Longrightarrow> permuteColumns p t ! i = map (\<lambda>j. t ! i ! j) p"
    by (simp add: permuteColumns_def)
  have sq': "squareTable (permuteColumns p t)"
    unfolding squareTable_def len by (auto simp: permuteColumns_def lp)
  have col: "tableColumn (permuteColumns p t) j = tableColumn t (p ! j)" if "j < ?n" for j
    using that by (simp add: tableColumn_def permuteColumns_def lp)
  have "rowsAndColumnsPermutations (permuteColumns p t)"
    unfolding rowsAndColumnsPermutations_def len
  proof (intro conjI allI impI)
    fix i assume i: "i < ?n"
    have "isPermutationOfSymbols ?n (t ! i)"
      using lat i by (simp add: rowsAndColumnsPermutations_def)
    then show "isPermutationOfSymbols ?n (permuteColumns p t ! i)"
      unfolding row [OF i] using p by (rule reindex_permutation)
  next
    fix j assume j: "j < ?n"
    show "isPermutationOfSymbols ?n (tableColumn (permuteColumns p t) j)"
      using lat pj [OF j] col [OF j] by (simp add: rowsAndColumnsPermutations_def)
  qed
  with sq' show ?thesis by simp
qed


text \<open>
  Claim C9. A square table the validator accepts is still accepted after any permutation
  of its rows, after any permutation of its columns, and after both.
\<close>

theorem isLatinSquare_permutation_invariant:
  assumes sq: "squareTable t" and ok: "isLatinSquare t = Inr True"
    and p: "isIndexPermutation (length t) p" and c: "isIndexPermutation (length t) c"
  shows "isLatinSquare (permuteRows p t) = Inr True
         \<and> isLatinSquare (permuteColumns c t) = Inr True
         \<and> isLatinSquare (permuteColumns c (permuteRows p t)) = Inr True"
proof -
  have lat: "rowsAndColumnsPermutations t"
    using ok isLatinSquare_perms [OF sq] by simp
  have r: "squareTable (permuteRows p t)" "rowsAndColumnsPermutations (permuteRows p t)"
    using permuteRows_latin [OF sq lat p] by simp_all
  have lr: "length (permuteRows p t) = length t"
    using p by (simp add: permuteRows_def isIndexPermutation_def)
  have cc: "squareTable (permuteColumns c t)" "rowsAndColumnsPermutations (permuteColumns c t)"
    using permuteColumns_latin [OF sq lat c] by simp_all
  have c': "isIndexPermutation (length (permuteRows p t)) c"
    using c lr by simp
  have rc: "squareTable (permuteColumns c (permuteRows p t))"
      "rowsAndColumnsPermutations (permuteColumns c (permuteRows p t))"
    using permuteColumns_latin [OF r c'] by simp_all
  show ?thesis
    using isLatinSquare_perms [OF r(1)] r(2) isLatinSquare_perms [OF cc(1)] cc(2)
      isLatinSquare_perms [OF rc(1)] rc(2)
    by simp
qed


theorem isLatinSquare_permutation_invariant_witness:
  "squareTable [[0, 1, 2], [1, 2, 0], [2, 0, 1]]
   \<and> isLatinSquare [[0, 1, 2], [1, 2, 0], [2, 0, 1]] = Inr True
   \<and> isIndexPermutation 3 [2, 0, 1] \<and> isIndexPermutation 3 [1, 0, 2]
   \<and> permuteRows [2, 0, 1] [[0, 1, 2], [1, 2, 0], [2, 0, 1]] = [[2, 0, 1], [0, 1, 2], [1, 2, 0]]
   \<and> isLatinSquare [[2, 0, 1], [0, 1, 2], [1, 2, 0]] = Inr True
   \<and> permuteColumns [1, 0, 2] [[0, 1, 2], [1, 2, 0], [2, 0, 1]] = [[1, 0, 2], [2, 1, 0], [0, 2, 1]]
   \<and> isLatinSquare [[1, 0, 2], [2, 1, 0], [0, 2, 1]] = Inr True"
proof -
  let ?t = "[[0, 1, 2], [1, 2, 0], [2, 0, 1]] :: int list list"
  have sq: "squareTable ?t"
    by (simp add: squareTable_def)
  have ok: "isLatinSquare ?t = Inr True"
    by (simp add: isLatinSquare_def readCell_def)
  have p3: "isIndexPermutation 3 [2, 0, 1]" and c3: "isIndexPermutation 3 [1, 0, 2]"
    by (auto simp: isIndexPermutation_def)
  have p: "isIndexPermutation (length ?t) [2, 0, 1]" and c: "isIndexPermutation (length ?t) [1, 0, 2]"
    using p3 c3 by (simp_all add: numeral_3_eq_3)
  have pr: "permuteRows [2, 0, 1] ?t = [[2, 0, 1], [0, 1, 2], [1, 2, 0]]"
    and pc: "permuteColumns [1, 0, 2] ?t = [[1, 0, 2], [2, 1, 0], [0, 2, 1]]"
    by (simp_all add: permuteRows_def permuteColumns_def)
  have r: "isLatinSquare [[2, 0, 1], [0, 1, 2], [1, 2, 0]] = Inr True"
    and k: "isLatinSquare [[1, 0, 2], [2, 1, 0], [0, 2, 1]] = Inr True"
    using isLatinSquare_permutation_invariant [OF sq ok p c] unfolding pr pc by simp_all
  show ?thesis
    using sq ok p3 c3 pr pc r k by blast
qed

section \<open>The detector on concrete tables\<close>

text \<open>
  Claim C6, as the code behaves. On the order-2 cyclic table \<open>[[0,1],[1,0]]\<close> the
  orbit of \<open>0\<close> is \<open>{0}\<close>, closed and of size \<open>1 < 2\<close>, so the proper-mode query
  returns true; the orbit of \<open>1\<close> is \<open>{1, 0}\<close>, closed and of size \<open>2 > 1\<close>, so the
  non-trivial-mode query returns true as well.
\<close>

theorem cyclic2_subquasigroups:
  "hasSubquasigroups (Quasigroup [[0, 1], [1, 0]]) True = Inr True
   \<and> hasSubquasigroups (Quasigroup [[0, 1], [1, 0]]) False = Inr True"
  by code_simp

text \<open>The statement of claim C6 (both queries return false) fails on that table.\<close>

theorem cyclic2_subquasigroups_counterexample:
  "\<not> (hasSubquasigroups (Quasigroup [[0, 1], [1, 0]]) True = Inr False
      \<and> hasSubquasigroups (Quasigroup [[0, 1], [1, 0]]) False = Inr False)"
  by code_simp

text \<open>
  Claim C2, at two Latin squares. In \<open>[[1,0],[0,1]]\<close> the set \<open>{1}\<close> is closed
  (\<open>1 * 1 = 1\<close>) and has fewer elements than the whole, yet the proper-mode query
  returns false: \<open>1\<close> is visited on the orbit of \<open>0\<close> and never used as a seed. In
  the idempotent square \<open>[[0,2,1],[2,1,0],[1,0,2]]\<close> the whole set is closed and has
  three elements, yet the non-trivial-mode query returns false: every orbit is a
  singleton.
\<close>

theorem hasSubquasigroups_misses_subquasigroups:
  "isLatinSquare [[1, 0], [0, 1]] = Inr True
   \<and> applyOperation (Quasigroup [[1, 0], [0, 1]]) 1 1 = Inr 1
   \<and> hasSubquasigroups (Quasigroup [[1, 0], [0, 1]]) True = Inr False
   \<and> isLatinSquare [[0, 2, 1], [2, 1, 0], [1, 0, 2]] = Inr True
   \<and> hasSubquasigroups (Quasigroup [[0, 2, 1], [2, 1, 0], [1, 0, 2]]) False = Inr False"
  by code_simp

section \<open>The non-trivial mode\<close>

lemma order_Quasigroup [simp]: "order (Quasigroup t) = int (length t)"
  by (simp add: Quasigroup_def)

lemma applyOperation_valid:
  assumes "validTable t" "0 \<le> a" "a < int (length t)" "0 \<le> b" "b < int (length t)"
  shows "applyOperation (Quasigroup t) a b = Inr (t ! nat a ! nat b)"
    and "0 \<le> t ! nat a ! nat b" and "t ! nat a ! nat b < int (length t)"
proof -
  have n: "nat a < length t" "nat b < length t"
    using assms by auto
  show "applyOperation (Quasigroup t) a b = Inr (t ! nat a ! nat b)"
    using assms n by (simp add: applyOperation_def Quasigroup_def validTable_def readCell_square)
  show "0 \<le> t ! nat a ! nat b" "t ! nat a ! nat b < int (length t)"
    using assms(1) n by (simp_all add: validTable_def entriesInRange_def)
qed

lemma cycleLoop_idempotent:
  assumes "validTable t" "x < length t" "t ! x ! x = int x" "length v = length t"
  shows "cycleLoop (Quasigroup t) v [] (int x) = Inr (v[x := True], [int x])"
proof -
  have ap: "applyOperation (Quasigroup t) (int x) (int x) = Inr (int x)"
    using applyOperation_valid(1) [OF assms(1), of "int x" "int x"] assms(2,3) by simp
  have "cycleLoop (Quasigroup t) v [] (int x) =
      cycleLoop (Quasigroup t) (v[x := True]) [int x] (int x)"
    using ap assms(2,4) by (subst cycleLoop.simps) simp
  also have "\<dots> = Inr (v[x := True], [int x])"
    by (subst cycleLoop.simps) simp
  finally show ?thesis .
qed

lemma cycleLoop_result:
  assumes vt: "validTable t"
  shows "length v = length t \<Longrightarrow> elementsInRange (Quasigroup t) cyc \<Longrightarrow>
    0 \<le> cur \<Longrightarrow> cur < int (length t) \<Longrightarrow>
    \<exists>v' cyc'. cycleLoop (Quasigroup t) v cyc cur = Inr (v', cyc')
       \<and> elementsInRange (Quasigroup t) cyc'
       \<and> length cyc + (if cur \<in> set cyc then 0 else 1) \<le> length cyc'"
proof (induction "Quasigroup t" v cyc cur rule: cycleLoop.induct)
  case (1 v cyc cur)
  show ?case
  proof (cases "cur \<in> set cyc")
    case True
    then show ?thesis
      using "1.prems" by (subst cycleLoop.simps) simp
  next
    case False
    let ?nx = "t ! nat cur ! nat cur"
    have ap: "applyOperation (Quasigroup t) cur cur = Inr ?nx"
      and nx: "0 \<le> ?nx" "?nx < int (length t)"
      using applyOperation_valid [OF vt "1.prems"(3,4) "1.prems"(3,4)] by simp_all
    have nb: "\<not> (cur < 0 \<or> int (length v) \<le> cur)"
      using "1.prems" by simp
    have rng: "elementsInRange (Quasigroup t) (cyc @ [cur])"
      using "1.prems" by (simp add: elementsInRange_def)
    have len: "length (v[nat cur := True]) = length t"
      using "1.prems" by simp
    from "1.hyps" [OF False nb ap len rng nx]
    obtain v' cyc' where
      r: "cycleLoop (Quasigroup t) (v[nat cur := True]) (cyc @ [cur]) ?nx = Inr (v', cyc')"
      and e: "elementsInRange (Quasigroup t) cyc'"
      and l: "length (cyc @ [cur]) + (if ?nx \<in> set (cyc @ [cur]) then 0 else 1) \<le> length cyc'"
      by blast
    have "cycleLoop (Quasigroup t) v cyc cur = Inr (v', cyc')"
      using False nb ap r by (subst cycleLoop.simps) simp
    moreover have "length cyc + (if cur \<in> set cyc then 0 else 1) \<le> length cyc'"
      using l False by simp
    ultimately show ?thesis using e by blast
  qed
qed

lemma cycleLoop_not_idempotent:
  assumes vt: "validTable t" and x: "x < length t" and ni: "t ! x ! x \<noteq> int x"
    and lv: "length v = length t"
  shows "\<exists>v' cyc'. cycleLoop (Quasigroup t) v [] (int x) = Inr (v', cyc')
       \<and> elementsInRange (Quasigroup t) cyc' \<and> 2 \<le> length cyc'"
proof -
  let ?nx = "t ! x ! x"
  have ap: "applyOperation (Quasigroup t) (int x) (int x) = Inr ?nx"
    and nx: "0 \<le> ?nx" "?nx < int (length t)"
    using applyOperation_valid [OF vt, of "int x" "int x"] x by simp_all
  have rng: "elementsInRange (Quasigroup t) [int x]"
    using x by (simp add: elementsInRange_def)
  have len: "length (v[x := True]) = length t"
    using lv by simp
  from cycleLoop_result [OF vt len rng nx]
  obtain v' cyc' where
    r: "cycleLoop (Quasigroup t) (v[x := True]) [int x] ?nx = Inr (v', cyc')"
    and e: "elementsInRange (Quasigroup t) cyc'"
    and l: "length [int x] + (if ?nx \<in> set [int x] then 0 else 1) \<le> length cyc'"
    by blast
  have "cycleLoop (Quasigroup t) v [] (int x) = Inr (v', cyc')"
    using ap r x lv by (subst cycleLoop.simps) simp
  moreover have "2 \<le> length cyc'"
    using l ni by simp
  ultimately show ?thesis using e by blast
qed

lemma nonTrivialPairs_valid:
  assumes vt: "validTable t"
  shows "(\<forall>p \<in> set ps. 0 \<le> fst p \<and> fst p < int (length t) \<and> 0 \<le> snd p \<and> snd p < int (length t)) \<Longrightarrow>
    elementsInRange (Quasigroup t) cs \<Longrightarrow>
    \<exists>cs' ch'. nonTrivialPairs (Quasigroup t) ps cs ch = Inr (cs', ch')
       \<and> elementsInRange (Quasigroup t) cs' \<and> length cs \<le> length cs'"
proof (induction ps arbitrary: cs ch)
  case Nil
  then show ?case by simp
next
  case (Cons p ps)
  obtain a b where p: "p = (a, b)" by (cases p)
  have ab: "0 \<le> a" "a < int (length t)" "0 \<le> b" "b < int (length t)"
    using Cons.prems(1) p by simp_all
  let ?r = "t ! nat a ! nat b"
  have ap: "applyOperation (Quasigroup t) a b = Inr ?r"
    and r: "0 \<le> ?r" "?r < int (length t)"
    using applyOperation_valid [OF vt ab] by simp_all
  have rest: "\<forall>p \<in> set ps. 0 \<le> fst p \<and> fst p < int (length t) \<and> 0 \<le> snd p \<and> snd p < int (length t)"
    using Cons.prems(1) by simp
  show ?case
  proof (cases "?r \<in> set cs")
    case True
    then show ?thesis
      using Cons.IH [OF rest Cons.prems(2), of ch] ap p by simp
  next
    case False
    have rng: "elementsInRange (Quasigroup t) (cs @ [?r])"
      using Cons.prems(2) r by (simp add: elementsInRange_def)
    from Cons.IH [OF rest rng, of True] obtain cs' ch' where
      "nonTrivialPairs (Quasigroup t) ps (cs @ [?r]) True = Inr (cs', ch')"
      "elementsInRange (Quasigroup t) cs'" "length (cs @ [?r]) \<le> length cs'"
      by blast
    then show ?thesis
      using False ap p by simp
  qed
qed

lemma product_in_range:
  assumes "elementsInRange (Quasigroup t) cs"
  shows "\<forall>p \<in> set (List.product cs cs).
      0 \<le> fst p \<and> fst p < int (length t) \<and> 0 \<le> snd p \<and> snd p < int (length t)"
  using assms by (auto simp: elementsInRange_def)

lemma nonTrivialLoop_true:
  assumes vt: "validTable t"
  shows "elementsInRange (Quasigroup t) cs \<Longrightarrow> 2 \<le> length cs \<Longrightarrow>
    nonTrivialLoop (Quasigroup t) cs = Inr True"
proof (induction "Quasigroup t" cs rule: nonTrivialLoop.induct)
  case (1 cs)
  from nonTrivialPairs_valid [OF vt product_in_range [OF "1.prems"(1)] "1.prems"(1), of False]
  obtain cs' ch' where
    r: "nonTrivialPairs (Quasigroup t) (List.product cs cs) cs False = Inr (cs', ch')"
    and e: "elementsInRange (Quasigroup t) cs'" and l: "length cs \<le> length cs'"
    by blast
  show ?case
  proof (cases ch')
    case True
    have "nonTrivialLoop (Quasigroup t) cs' = Inr True"
      using "1.hyps" [OF r refl True e] l "1.prems"(2) by simp
    then show ?thesis
      using r True by (subst nonTrivialLoop.simps) simp
  next
    case False
    then show ?thesis
      using r l "1.prems"(2) by (subst nonTrivialLoop.simps) simp
  qed
qed

lemma hasSubquasigroupsLoop_nonTrivial:
  assumes vt: "validTable t"
  shows "k \<le> length t \<Longrightarrow> length v = length t \<Longrightarrow> (\<forall>s. k \<le> s \<and> s < length t \<longrightarrow> \<not> v ! s) \<Longrightarrow>
    hasSubquasigroupsLoop (Quasigroup t) False v [k..<length t] =
      Inr (\<exists>x. k \<le> x \<and> x < length t \<and> t ! x ! x \<noteq> int x)"
proof (induction "length t - k" arbitrary: k v)
  case 0
  then show ?case by simp
next
  case (Suc m)
  then have k: "k < length t" by simp
  have up: "[k..<length t] = k # [Suc k..<length t]"
    using k by (simp add: upt_conv_Cons)
  have nv: "\<not> v ! k" using Suc.prems(3) k by simp
  show ?case
  proof (cases "t ! k ! k = int k")
    case True
    have cyc: "cycleLoop (Quasigroup t) v [] (int k) = Inr (v[k := True], [int k])"
      by (rule cycleLoop_idempotent [OF vt k True Suc.prems(2)])
    have inv: "\<forall>s. Suc k \<le> s \<and> s < length t \<longrightarrow> \<not> (v[k := True]) ! s"
      using Suc.prems(3) by (simp add: nth_list_update)
    have m: "m = length t - Suc k" using Suc.hyps(2) by simp
    have rec: "hasSubquasigroupsLoop (Quasigroup t) False (v[k := True]) [Suc k..<length t] =
        Inr (\<exists>x. Suc k \<le> x \<and> x < length t \<and> t ! x ! x \<noteq> int x)"
      using Suc.hyps(1) [OF m _ _ inv] k Suc.prems(2) by simp
    have "(\<exists>x. Suc k \<le> x \<and> x < length t \<and> t ! x ! x \<noteq> int x) =
        (\<exists>x. k \<le> x \<and> x < length t \<and> t ! x ! x \<noteq> int x)"
      using True by (metis Suc_leD Suc_leI le_neq_implies_less)
    then show ?thesis
      unfolding up using nv cyc rec by (simp add: verifyNonTrivialSubquasigroup_def)
  next
    case False
    from cycleLoop_not_idempotent [OF vt k False Suc.prems(2)]
    obtain v' cyc' where
      cyc: "cycleLoop (Quasigroup t) v [] (int k) = Inr (v', cyc')"
      and e: "elementsInRange (Quasigroup t) cyc'" and l: "2 \<le> length cyc'"
      by blast
    have "verifyNonTrivialSubquasigroup (Quasigroup t) cyc' = Inr True"
      using nonTrivialLoop_true [OF vt e l] l by (simp add: verifyNonTrivialSubquasigroup_def)
    moreover have "\<exists>x. k \<le> x \<and> x < length t \<and> t ! x ! x \<noteq> int x"
      using False k by blast
    ultimately show ?thesis
      unfolding up using nv cyc by simp
  qed
qed

lemma hasSubquasigroups_nonTrivial:
  assumes vt: "validTable t"
  shows "hasSubquasigroups (Quasigroup t) False = Inr (\<not> allIdempotent t)"
proof -
  have "hasSubquasigroupsLoop (Quasigroup t) False (replicate (length t) False) [0..<length t] =
      Inr (\<exists>x. 0 \<le> x \<and> x < length t \<and> t ! x ! x \<noteq> int x)"
    by (rule hasSubquasigroupsLoop_nonTrivial [OF vt]) simp_all
  then show ?thesis
    by (simp add: hasSubquasigroups_def allIdempotent_def)
qed

text \<open>
  Claim C10. On a square table whose entries all lie in \<open>[0, n)\<close> the non-trivial-mode
  query returns false if and only if every element is idempotent; it returns true as
  soon as one diagonal entry differs from its index. (The order may be any \<open>n\<close>,
  also \<open>0\<close>.)
\<close>

theorem nonTrivial_iff_not_idempotent:
  assumes "squareTable t" and "entriesInRange t"
  shows "hasSubquasigroups (Quasigroup t) False = Inr (\<not> allIdempotent t)
         \<and> (hasSubquasigroups (Quasigroup t) False = Inr False) = allIdempotent t"
proof -
  have "validTable t" using assms by (simp add: validTable_def)
  from hasSubquasigroups_nonTrivial [OF this] show ?thesis by simp
qed

theorem nonTrivial_iff_not_idempotent_witness:
  "squareTable [[0, 2, 1], [2, 1, 0], [1, 0, 2]] \<and> entriesInRange [[0, 2, 1], [2, 1, 0], [1, 0, 2]]
   \<and> allIdempotent [[0, 2, 1], [2, 1, 0], [1, 0, 2]]
   \<and> hasSubquasigroups (Quasigroup [[0, 2, 1], [2, 1, 0], [1, 0, 2]]) False = Inr False
   \<and> squareTable [[0, 1], [1, 0]] \<and> entriesInRange [[0, 1], [1, 0]]
   \<and> \<not> allIdempotent [[0, 1], [1, 0]]
   \<and> hasSubquasigroups (Quasigroup [[0, 1], [1, 0]]) False = Inr True"
proof -
  let ?a = "[[0, 2, 1], [2, 1, 0], [1, 0, 2]] :: int list list"
  let ?b = "[[0, 1], [1, 0]] :: int list list"
  have sq: "squareTable ?a" "squareTable ?b"
    by (simp_all add: squareTable_def)
  have er: "entriesInRange ?a" "entriesInRange ?b"
    by (simp_all add: entriesInRange_def less_Suc_eq numeral_3_eq_3 numeral_2_eq_2)
  have ia: "allIdempotent ?a"
    by (simp add: allIdempotent_def less_Suc_eq numeral_3_eq_3)
  have ib: "\<not> allIdempotent ?b"
    by (simp add: allIdempotent_def less_Suc_eq numeral_2_eq_2)
  show ?thesis
    using sq er ia ib nonTrivial_iff_not_idempotent [OF sq(1) er(1)]
      nonTrivial_iff_not_idempotent [OF sq(2) er(2)]
    by simp
qed


section \<open>The detector on cyclic groups\<close>

lemma cyclic_length [simp]: "length (generateCyclicGroupCayleyTable n) = n"
  by (simp add: generateCyclicGroupCayleyTable_def)

lemma cyclic_entry:
  "i < n \<Longrightarrow> j < n \<Longrightarrow> generateCyclicGroupCayleyTable n ! i ! j = (int i + int j) mod int n"
  by (simp add: generateCyclicGroupCayleyTable_def)

lemma cyclic_valid: "validTable (generateCyclicGroupCayleyTable n)"
proof -
  have "squareTable (generateCyclicGroupCayleyTable n)"
    by (auto simp: squareTable_def generateCyclicGroupCayleyTable_def)
  moreover have "entriesInRange (generateCyclicGroupCayleyTable n)"
    by (simp add: entriesInRange_def cyclic_entry)
  ultimately show ?thesis by (simp add: validTable_def)
qed

lemma cyclic_idempotent: "allIdempotent (generateCyclicGroupCayleyTable n) = (n < 2)"
proof (cases "n < 2")
  case True
  then show ?thesis
    by (auto simp: allIdempotent_def cyclic_entry)
next
  case False
  then have "1 < n" by simp
  then have "generateCyclicGroupCayleyTable n ! 1 ! 1 = 2 mod int n"
    by (simp add: cyclic_entry)
  moreover have "2 mod int n \<noteq> 1"
  proof (cases "n = 2")
    case True
    then show ?thesis by simp
  next
    case False
    with \<open>1 < n\<close> have "2 < int n" by simp
    then show ?thesis by simp
  qed
  ultimately have "\<not> allIdempotent (generateCyclicGroupCayleyTable n)"
    using \<open>1 < n\<close> unfolding allIdempotent_def by (intro notI) (drule spec [of _ 1], simp)
  with False show ?thesis by simp
qed

lemma properLoop_singleton_closed:
  assumes "applyOperation q x x = Inr x"
  shows "properLoop q [x] = Inr (1 < order q)"
  using assms by (subst properLoop.simps) simp

lemma cyclic_proper:
  "hasSubquasigroups (Quasigroup (generateCyclicGroupCayleyTable n)) True = Inr (2 \<le> n)"
proof (cases "n = 0")
  case True
  then show ?thesis by (simp add: hasSubquasigroups_def)
next
  case False
  let ?t = "generateCyclicGroupCayleyTable n"
  let ?v = "replicate n False"
  have n: "0 < n" using False by simp
  have up: "[0..<n] = 0 # [1..<n]"
    using n by (simp add: upt_conv_Cons)
  have e00: "?t ! 0 ! 0 = int 0"
    using n by (simp add: cyclic_entry)
  have cyc: "cycleLoop (Quasigroup ?t) ?v [] (int 0) = Inr (?v[0 := True], [int 0])"
    using cyclic_valid n e00 by (intro cycleLoop_idempotent) simp_all
  have ap: "applyOperation (Quasigroup ?t) 0 0 = Inr 0"
    using applyOperation_valid(1) [OF cyclic_valid, of 0 n 0] n e00 by simp
  have ver: "verifyProperSubquasigroup (Quasigroup ?t) [0] = Inr (1 < int n)"
    unfolding verifyProperSubquasigroup_def using properLoop_singleton_closed [OF ap] by simp
  show ?thesis
  proof (cases "n = 1")
    case True
    then show ?thesis
      using cyc ver by (simp add: hasSubquasigroups_def)
  next
    case False
    with n have "2 \<le> n" by simp
    then show ?thesis
      using cyc ver n unfolding hasSubquasigroups_def by (simp add: up)
  qed
qed


text \<open>
  Claim C3, as the code behaves. On the cyclic-group table of order \<open>n\<close> both queries
  return true for every \<open>n \<ge> 2\<close>, prime or composite, and false for \<open>n \<le> 1\<close>: the
  orbit of \<open>0\<close> is the closed singleton \<open>{0}\<close>, of size \<open>1 < n\<close>, and \<open>1\<close> is not
  idempotent. So the two results agree for every \<open>n\<close>, and the proper-mode result is
  true for every composite \<open>n\<close>.
\<close>

theorem cyclic_group_subquasigroups:
  "hasSubquasigroups (Quasigroup (generateCyclicGroupCayleyTable n)) True = Inr (2 \<le> n)
   \<and> hasSubquasigroups (Quasigroup (generateCyclicGroupCayleyTable n)) False = Inr (2 \<le> n)"
proof -
  have "hasSubquasigroups (Quasigroup (generateCyclicGroupCayleyTable n)) False = Inr (2 \<le> n)"
    using hasSubquasigroups_nonTrivial [OF cyclic_valid, of n] cyclic_idempotent [of n]
    by (simp add: not_less)
  with cyclic_proper show ?thesis by simp
qed


text \<open>
  The part of claim C3 about primes (proper-exists is false for a prime order) fails at
  the prime \<open>3\<close>.
\<close>

theorem cyclic_prime_counterexample:
  "\<not> (hasSubquasigroups (Quasigroup (generateCyclicGroupCayleyTable 3)) True = Inr False)"
  by code_simp

end
